theory Spec2Isabelle
  imports Main "HOL-Library.Multiset"
begin

section \<open>The reminder table\<close>

text \<open>
  The table \<open>reminders(id INTEGER PRIMARY KEY AUTOINCREMENT, medicine_name TEXT,
  due_datetime TEXT, notified INTEGER DEFAULT 0)\<close> of \<open>create_reminder_table\<close>.
  The column \<open>due_datetime\<close> holds the fixed-width rendering \<open>%Y-%m-%d %H:%M:%S\<close> of a
  date and time; it is modelled by the number of seconds it denotes, whose order is the
  order of those strings. The clock \<open>datetime.now()\<close> is read in whole seconds as well.
  A value of \<open>db\<close> is the table as the one shared connection sees it: a statement that
  ran is seen by every later statement on the connection, committed or not.
  The rows are kept in rowid order, the order of a table scan; \<open>seq\<close> is the
  \<open>sqlite_sequence\<close> entry that AUTOINCREMENT maintains (the largest id ever given).
\<close>

type_synonym timestamp = nat

record reminder =
  rid :: nat
  medicine_name :: string
  due_datetime :: timestamp
  notified :: bool

record db =
  reminders :: "reminder list"
  seq :: nat

text \<open>\<open>INSERT INTO reminders (medicine_name, due_datetime, notified) VALUES (?, ?, 0)\<close>\<close>

definition next_id :: "db \<Rightarrow> nat" where
  "next_id d = Suc (fold max (map rid (reminders d)) (seq d))"

definition insert_reminder :: "db \<Rightarrow> string \<Rightarrow> timestamp \<Rightarrow> db" where
  "insert_reminder d name due =
     d\<lparr>reminders := reminders d @
          [\<lparr>rid = next_id d, medicine_name = name, due_datetime = due, notified = False\<rparr>],
       seq := next_id d\<rparr>"

text \<open>\<open>UPDATE reminders SET notified = 1 WHERE id = ?\<close>\<close>

definition update_notified :: "db \<Rightarrow> nat \<Rightarrow> db" where
  "update_notified d reminder_id =
     d\<lparr>reminders := map (\<lambda>r. if rid r = reminder_id then r\<lparr>notified := True\<rparr> else r)
                         (reminders d)\<rparr>"

text \<open>\<open>DELETE FROM reminders WHERE id = ?\<close>\<close>

definition delete_row :: "db \<Rightarrow> nat \<Rightarrow> db" where
  "delete_row d reminder_id =
     d\<lparr>reminders := filter (\<lambda>r. rid r \<noteq> reminder_id) (reminders d)\<rparr>"

text \<open>
  \<open>SELECT id, medicine_name, due_datetime FROM reminders
   WHERE notified = 0 AND datetime(due_datetime) <= datetime(?)\<close>:
  no ORDER BY, so the rows come in the order of the table scan.
\<close>

definition select_due :: "db \<Rightarrow> timestamp \<Rightarrow> (nat \<times> string \<times> timestamp) list" where
  "select_due d current_time =
     map (\<lambda>r. (rid r, medicine_name r, due_datetime r))
       (filter (\<lambda>r. \<not> notified r \<and> due_datetime r \<le> current_time) (reminders d))"

text \<open>\<open>SELECT id, medicine_name, due_datetime, notified FROM reminders ORDER BY due_datetime ASC\<close>\<close>

definition select_all_ordered :: "db \<Rightarrow> (nat \<times> string \<times> timestamp \<times> bool) list" where
  "select_all_ordered d =
     map (\<lambda>r. (rid r, medicine_name r, due_datetime r, notified r))
       (sort_key due_datetime (reminders d))"

section \<open>The application\<close>

text \<open>
  The fields of \<open>MedicalVaccineSystem\<close> that the reminder code reads: the connection,
  \<open>sound_enabled\<close> (set once at start-up) and the flag \<open>monitoring\<close> of the loop.
\<close>

record app =
  conn :: db
  sound_enabled :: bool
  monitoring :: bool

text \<open>
  What the code does to the outside, in the order it does it: calls of the audio
  subsystem and of the desktop notification (with whether the call returned or raised),
  the sleeps, and the messages shown through \<open>st.error\<close>, \<open>st.success\<close>, \<open>st.info\<close>.
  \<open>ThreadStart i evs\<close> is the start of the notification thread for reminder \<open>i\<close>; \<open>evs\<close>
  is what that thread does, in its own order. The caller goes on at once, so nothing is
  said about the order of \<open>evs\<close> against the events that follow the \<open>ThreadStart\<close>.
\<close>

datatype event =
    MusicPlay bool
  | DesktopNotify string timestamp bool
  | Sleep nat
  | MusicStop bool
  | ThreadStart nat "event list"
  | StError string
  | StSuccess string
  | StInfo string
  | ReminderSet string timestamp
  | ShowReminder nat string timestamp

datatype exn = PygameError | NotifyError | RuntimeError | SqliteError | ValueError

text \<open>
  The faults one call of \<open>notify_user\<close> can meet, each where the source has a handler:
  \<open>pygame.error\<close> from \<open>play\<close> and \<open>stop\<close>, any exception from \<open>notification.notify\<close>,
  an exception from starting the thread, an \<open>sqlite3.Error\<close> from the UPDATE or from the
  commit that follows it;
  \<open>file_exists\<close> is the answer of \<open>os.path.exists(self.sound_file)\<close>.
\<close>

record faults =
  file_exists :: bool
  play_fails :: bool
  notification_fails :: bool
  stop_fails :: bool
  thread_fails :: bool
  update_fails :: bool
  commit_fails :: bool

definition music_play :: "faults \<Rightarrow> exn + unit" where
  "music_play f = (if play_fails f then Inl PygameError else Inr ())"

definition music_stop :: "faults \<Rightarrow> exn + unit" where
  "music_stop f = (if stop_fails f then Inl PygameError else Inr ())"

definition notification_notify :: "faults \<Rightarrow> exn + unit" where
  "notification_notify f = (if notification_fails f then Inl NotifyError else Inr ())"

text \<open>The body of the notification thread, the inner function of \<open>notify_user\<close>.\<close>

definition play_sound_and_notify :: "bool \<Rightarrow> faults \<Rightarrow> string \<Rightarrow> timestamp \<Rightarrow> event list" where
  "play_sound_and_notify enabled f name due_time =
     (if enabled \<and> file_exists f
      then (case music_play f of Inl e \<Rightarrow> [MusicPlay False] | Inr u \<Rightarrow> [MusicPlay True])
      else [])
     @ (case notification_notify f of
          Inl e \<Rightarrow> [DesktopNotify name due_time False, StError ''Desktop notification error'']
        | Inr u \<Rightarrow> [DesktopNotify name due_time True])
     @ (if enabled
        then Sleep 5 # (case music_stop f of Inl e \<Rightarrow> [MusicStop False] | Inr u \<Rightarrow> [MusicStop True])
        else [])"

text \<open>
  The \<open>try\<close> block of \<open>notify_user\<close>: start the thread, then mark the reminder. An
  exception leaves the block at the statement that raised it.
\<close>

definition thread_start :: "faults \<Rightarrow> exn + unit" where
  "thread_start f = (if thread_fails f then Inl RuntimeError else Inr ())"

text \<open>
  \<open>mark_reminder_as_notified\<close>: \<open>cursor.execute\<close> of the UPDATE, then \<open>self.conn.commit()\<close>.
  When the UPDATE raises nothing has changed. When the commit raises the UPDATE has run
  and nothing rolls it back: the connection goes on seeing the row as notified.
\<close>

definition mark_reminder_as_notified :: "faults \<Rightarrow> db \<Rightarrow> nat \<Rightarrow> exn option \<times> db" where
  "mark_reminder_as_notified f d reminder_id =
     (if update_fails f then (Some SqliteError, d)
      else if commit_fails f then (Some SqliteError, update_notified d reminder_id)
      else (None, update_notified d reminder_id))"

definition notify_body :: "app \<Rightarrow> faults \<Rightarrow> nat \<Rightarrow> string \<Rightarrow> timestamp \<Rightarrow> event list \<times> exn option \<times> app" where
  "notify_body a f reminder_id name due_time =
     (case thread_start f of
        Inl e \<Rightarrow> ([], Some e, a)
      | Inr u \<Rightarrow>
          (let evs = [ThreadStart reminder_id (play_sound_and_notify (sound_enabled a) f name due_time)]
           in case mark_reminder_as_notified f (conn a) reminder_id of
                (r, d) \<Rightarrow> (evs, r, a\<lparr>conn := d\<rparr>)))"

text \<open>
  \<open>notify_user\<close>: the events, what the call gives its caller (an exception or the
  returned boolean), and the application afterwards. The handler shows the error and
  returns False; it undoes nothing.
\<close>

definition notify_user :: "app \<Rightarrow> faults \<Rightarrow> nat \<Rightarrow> string \<Rightarrow> timestamp \<Rightarrow> event list \<times> (exn + bool) \<times> app" where
  "notify_user a f reminder_id name due_time =
     (case notify_body a f reminder_id name due_time of
        (evs, None, a') \<Rightarrow> (evs, Inr True, a')
      | (evs, Some e, a') \<Rightarrow> (evs @ [StError ''Notification error''], Inr False, a'))"

section \<open>The monitor loop\<close>

text \<open>
  The \<open>for\<close> loop of \<open>monitor_reminders\<close> over the fetched rows. The returned boolean of
  \<open>notify_user\<close> is dropped, as in the source; an exception out of \<open>notify_user\<close> would
  leave the loop for the handler of the cycle.
\<close>

fun dispatch_all :: "app \<Rightarrow> (nat \<Rightarrow> faults) \<Rightarrow> (nat \<times> string \<times> timestamp) list \<Rightarrow> event list \<times> exn option \<times> app" where
  "dispatch_all a env [] = ([], None, a)"
| "dispatch_all a env ((reminder_id, name, due_time) # rest) =
     (case notify_user a (env reminder_id) reminder_id name due_time of
        (evs, Inl e, a') \<Rightarrow> (evs, Some e, a')
      | (evs, Inr b, a') \<Rightarrow>
          (case dispatch_all a' env rest of (evs', r, a'') \<Rightarrow> (evs @ evs', r, a'')))"

text \<open>
  One pass of the body of \<open>while self.monitoring\<close>: the SELECT (which may raise
  \<open>sqlite3.Error\<close>), the loop over its rows, the two handlers, and the sleep of 60.
  Changes made before an exception stay.
\<close>

record cycle_env =
  select_fails :: bool
  dispatch_faults :: "nat \<Rightarrow> faults"

definition poll_cycle :: "app \<Rightarrow> cycle_env \<Rightarrow> timestamp \<Rightarrow> event list \<times> app" where
  "poll_cycle a env current_time =
     (if select_fails env
      then ([StError ''Database error in monitor_reminders'', Sleep 60], a)
      else (case dispatch_all a (dispatch_faults env) (select_due (conn a) current_time) of
              (evs, None, a') \<Rightarrow> (evs @ [Sleep 60], a')
            | (evs, Some e, a') \<Rightarrow> (evs @ [StError ''Error in monitor_reminders'', Sleep 60], a')))"

text \<open>
  \<open>monitor_reminders\<close>, for as many cycles as the clock readings given: the loop ends
  only when \<open>monitoring\<close> is false at the head of a cycle.
\<close>

fun monitor_reminders :: "app \<Rightarrow> (cycle_env \<times> timestamp) list \<Rightarrow> event list \<times> app" where
  "monitor_reminders a [] = ([], a)"
| "monitor_reminders a ((env, current_time) # cs) =
     (if monitoring a
      then (case poll_cycle a env current_time of
              (evs, a') \<Rightarrow> (case monitor_reminders a' cs of (evs', a'') \<Rightarrow> (evs @ evs', a'')))
      else ([], a))"

text \<open>The ids handed to the notification thread, in the order of the calls.\<close>

fun dispatched :: "event list \<Rightarrow> nat list" where
  "dispatched [] = []"
| "dispatched (ThreadStart i t # evs) = i # dispatched evs"
| "dispatched (e # evs) = dispatched evs"

section \<open>Setting, viewing and deleting reminders\<close>

datatype period = AM | PM

text \<open>\<open>hour_24 = (hour % 12) + (12 if period == "PM" else 0)\<close>\<close>

definition hour_24 :: "nat \<Rightarrow> period \<Rightarrow> nat" where
  "hour_24 hour p = (hour mod 12) + (if p = PM then 12 else 0)"

text \<open>
  \<open>dt_time(hour_24, minute)\<close> raises \<open>ValueError\<close> outside 0..23 and 0..59; a time of
  day is its seconds since midnight. \<open>datetime.combine\<close> adds it to the date, a number
  of days.
\<close>

definition dt_time :: "nat \<Rightarrow> nat \<Rightarrow> exn + nat" where
  "dt_time h m = (if h < 24 \<and> m < 60 then Inr (h * 3600 + m * 60) else Inl ValueError)"

definition datetime_combine :: "nat \<Rightarrow> nat \<Rightarrow> timestamp" where
  "datetime_combine reminder_date reminder_time = reminder_date * 86400 + reminder_time"

text \<open>
  \<open>set_vaccine_reminder\<close> from \<open>if submit_button:\<close> on, with the values of the form as
  arguments, the clock reading, and whether the INSERT raises \<open>sqlite3.Error\<close>. The
  \<open>ValueError\<close> of \<open>dt_time\<close> has no handler and leaves the function.
\<close>

definition set_vaccine_reminder ::
  "app \<Rightarrow> bool \<Rightarrow> timestamp \<Rightarrow> bool \<Rightarrow> string \<Rightarrow> nat \<Rightarrow> nat \<Rightarrow> nat \<Rightarrow> period \<Rightarrow> exn + (event list \<times> app)" where
  "set_vaccine_reminder a insert_fails now submit_button name reminder_date hour minute p =
     (if \<not> submit_button then Inr ([], a)
      else if name = [] then Inr ([StError ''Please enter a medicine name.''], a)
      else (case dt_time (hour_24 hour p) minute of
              Inl e \<Rightarrow> Inl e
            | Inr reminder_time \<Rightarrow>
                (let reminder_datetime = datetime_combine reminder_date reminder_time
                 in if reminder_datetime \<le> now
                    then Inr ([StError ''Please select a future date and time.''], a)
                    else if insert_fails
                    then Inr ([StError ''Error setting reminder''], a)
                    else Inr ([ReminderSet name reminder_datetime],
                              a\<lparr>conn := insert_reminder (conn a) name reminder_datetime\<rparr>))))"

text \<open>
  \<open>view_reminders\<close>: the rows of the ordered SELECT, shown one by one, or the notice
  that there are none. The rows are returned beside the events.
\<close>

definition view_reminders :: "app \<Rightarrow> event list \<times> (nat \<times> string \<times> timestamp \<times> bool) list" where
  "view_reminders a =
     (let rows = select_all_ordered (conn a)
      in (if rows \<noteq> []
          then map (\<lambda>(reminder_id, name, due_time, n). ShowReminder reminder_id name due_time) rows
          else [StInfo ''No reminders set. Add some reminders to get started!''],
          rows))"

definition delete_reminder :: "app \<Rightarrow> nat \<Rightarrow> event list \<times> app" where
  "delete_reminder a reminder_id =
     ([StSuccess ''Reminder deleted successfully!''], a\<lparr>conn := delete_row (conn a) reminder_id\<rparr>)"

section \<open>Runs of the application\<close>

text \<open>
  The table as the database keeps it: the ids strictly ascending in rowid order (the
  primary key), none above the recorded sequence value.
\<close>

definition wf_db :: "db \<Rightarrow> bool" where
  "wf_db d = (sorted_wrt (<) (map rid (reminders d)) \<and> list_all (\<lambda>r. rid r \<le> seq d) (reminders d))"

text \<open>
  In a call of \<open>notify_user\<close> the UPDATE runs when the thread started and the statement
  did not raise; the call returns True when the commit went through as well.
\<close>

definition update_runs :: "faults \<Rightarrow> bool" where
  "update_runs f = (\<not> thread_fails f \<and> \<not> update_fails f)"

definition dispatch_ok :: "faults \<Rightarrow> bool" where
  "dispatch_ok f = (update_runs f \<and> \<not> commit_fails f)"

text \<open>
  What can happen to the application, one after the other: the form is submitted, a
  reminder is deleted from the list, the list is viewed, the monitor loop runs a cycle.
\<close>

datatype action =
    SetReminder bool timestamp string nat nat nat period
  | DeleteReminder nat
  | ViewReminders
  | PollCycle cycle_env timestamp

fun step :: "app \<Rightarrow> action \<Rightarrow> app" where
  "step a (SetReminder insert_fails now name reminder_date hour minute p) =
     (case set_vaccine_reminder a insert_fails now True name reminder_date hour minute p of
        Inl e \<Rightarrow> a
      | Inr (evs, a') \<Rightarrow> a')"
| "step a (DeleteReminder reminder_id) = snd (delete_reminder a reminder_id)"
| "step a ViewReminders = a"
| "step a (PollCycle env current_time) = snd (monitor_reminders a [(env, current_time)])"

definition run :: "app \<Rightarrow> action list \<Rightarrow> app" where
  "run a acts = foldl step a acts"

section \<open>Sample states\<close>

definition app0 :: app where
  "app0 = \<lparr>conn = \<lparr>reminders = [], seq = 0\<rparr>, sound_enabled = False, monitoring = True\<rparr>"

text \<open>No fault: the sound file exists and every call returns.\<close>

definition faults0 :: faults where
  "faults0 = \<lparr>file_exists = True, play_fails = False, notification_fails = False,
     stop_fails = False, thread_fails = False, update_fails = False, commit_fails = False\<rparr>"

definition app1 :: app where
  "app1 = \<lparr>conn = \<lparr>reminders =
       [\<lparr>rid = 1, medicine_name = ''Aspirin'', due_datetime = 100, notified = False\<rparr>], seq = 1\<rparr>,
     sound_enabled = True, monitoring = True\<rparr>"

text \<open>
  Two reminders set through the form, the one due later first: at time 0 a reminder
  for 12:03 AM of day 0 (second 180), then one for 12:02 AM (second 120).
\<close>

definition app2 :: app where
  "app2 = run app0 [SetReminder False 0 ''Aspirin'' 0 12 3 AM,
                    SetReminder False 0 ''Paracetamol'' 0 12 2 AM]"

definition env0 :: cycle_env where
  "env0 = \<lparr>select_fails = False, dispatch_faults = (\<lambda>i. faults0)\<rparr>"

text \<open>The commit of the UPDATE for reminder 1 raises; every other call returns.\<close>

definition env1 :: cycle_env where
  "env1 = \<lparr>select_fails = False,
     dispatch_faults = (\<lambda>i. if i = 1 then faults0\<lparr>commit_fails := True\<rparr> else faults0)\<rparr>"

section \<open>Properties of setting and viewing reminders\<close>

lemma fold_max_ge: "(k::nat) \<le> fold max xs k \<and> (\<forall>x\<in>set xs. x \<le> fold max xs k)"
proof (induction xs arbitrary: k)
  case Nil
  show ?case by simp
next
  case (Cons y ys)
  have "max y k \<le> fold max ys (max y k)" using Cons.IH by blast
  then show ?case using Cons.IH [of "max y k"] by auto
qed

lemma next_id_fresh: "\<forall>r\<in>set (reminders d). rid r < next_id d"
proof
  fix r assume "r \<in> set (reminders d)"
  then have "rid r \<in> set (map rid (reminders d))" by simp
  with fold_max_ge have "rid r \<le> fold max (map rid (reminders d)) (seq d)" by blast
  then show "rid r < next_id d" by (simp add: next_id_def)
qed

lemma next_id_seq: "seq d < next_id d"
  using fold_max_ge [of "seq d" "map rid (reminders d)"] by (simp add: next_id_def)

lemma dt_time_form:
  assumes "1 \<le> hour" "hour \<le> 12" "minute < 60"
  shows "dt_time (hour_24 hour p) minute = Inr (hour_24 hour p * 3600 + minute * 60)"
proof -
  have "hour_24 hour p < 24" using assms by (cases p) (auto simp: hour_24_def)
  then show ?thesis using assms by (simp add: dt_time_def)
qed

text \<open>
  Claim C10. For every hour in 1..12, minute in 0..59 and period, the hour computed by
  the form (hour mod 12, plus 12 for PM) is below 24, so that the time of day is made
  without an error; 12 AM gives hour 0 and 12 PM hour 12; every other hour is itself in
  the morning and itself plus 12 in the afternoon.
\<close>

theorem hour_24_correct:
  assumes "1 \<le> hour" "hour \<le> 12" "minute < 60"
  shows "hour_24 hour p < 24
       \<and> dt_time (hour_24 hour p) minute = Inr (hour_24 hour p * 3600 + minute * 60)
       \<and> hour_24 12 AM = 0 \<and> hour_24 12 PM = 12
       \<and> (hour < 12 \<longrightarrow> hour_24 hour AM = hour \<and> hour_24 hour PM = hour + 12)"
  using assms by (cases p) (auto simp: hour_24_def dt_time_def)

theorem hour_24_correct_witness:
  "hour_24 7 PM = 19 \<and> dt_time (hour_24 7 PM) 30 = Inr 70200 \<and> hour_24 7 AM = 7
   \<and> hour_24 12 AM = 0 \<and> hour_24 12 PM = 12"
  using hour_24_correct [of 7 30 PM] by (simp add: hour_24_def)

text \<open>
  Claim C5. Submitting the form with an empty medicine name, or with a date and time
  that is not after the clock reading, shows an error and leaves the application, and
  so every row of the table, as it was; this holds whether or not the database would
  have accepted the INSERT.
\<close>

theorem create_rejects_invalid:
  assumes "name = [] \<or> (1 \<le> hour \<and> hour \<le> 12 \<and> minute < 60
            \<and> datetime_combine reminder_date (hour_24 hour p * 3600 + minute * 60) \<le> now)"
  shows "\<exists>msg. set_vaccine_reminder a insert_fails now True name reminder_date hour minute p
            = Inr ([StError msg], a)"
proof (cases "name = []")
  case True
  then show ?thesis by (simp add: set_vaccine_reminder_def)
next
  case False
  with assms have h: "1 \<le> hour" "hour \<le> 12" "minute < 60"
    and d: "datetime_combine reminder_date (hour_24 hour p * 3600 + minute * 60) \<le> now" by auto
  from False d dt_time_form [OF h] show ?thesis by (simp add: set_vaccine_reminder_def)
qed

theorem create_rejects_invalid_witness:
  "(\<exists>msg. set_vaccine_reminder app0 False 200000 True [] 1 9 30 AM = Inr ([StError msg], app0))
   \<and> datetime_combine 1 (hour_24 9 AM * 3600 + 30 * 60) = 120600
   \<and> (\<exists>msg. set_vaccine_reminder app0 False 120600 True ''Vitamin D'' 1 9 30 AM = Inr ([StError msg], app0))"
proof -
  have d: "datetime_combine 1 (hour_24 9 AM * 3600 + 30 * 60) = 120600"
    by (simp add: datetime_combine_def hour_24_def)
  have 1: "\<exists>msg. set_vaccine_reminder app0 False 200000 True [] 1 9 30 AM = Inr ([StError msg], app0)"
    using create_rejects_invalid [where name = "[]"] by simp
  have 2: "\<exists>msg. set_vaccine_reminder app0 False 120600 True ''Vitamin D'' 1 9 30 AM = Inr ([StError msg], app0)"
    using create_rejects_invalid [where name = "''Vitamin D''" and hour = 9 and minute = 30
        and reminder_date = 1 and p = AM and now = 120600] d by simp
  from 1 d 2 show ?thesis by blast
qed

text \<open>
  Claim C6. Submitting the form with a non-empty medicine name and a date and time after
  the clock reading, when the INSERT does not raise, reports the reminder as set and
  adds exactly one row to the table: it carries the name and the due time, a fresh id,
  and notified = false; the rows that were there are unchanged.
\<close>

theorem create_accepts_future:
  assumes "name \<noteq> []" "1 \<le> hour" "hour \<le> 12" "minute < 60" "\<not> insert_fails"
    and "now < datetime_combine reminder_date (hour_24 hour p * 3600 + minute * 60)"
  shows "\<exists>a'. set_vaccine_reminder a insert_fails now True name reminder_date hour minute p
            = Inr ([ReminderSet name (datetime_combine reminder_date (hour_24 hour p * 3600 + minute * 60))], a')
         \<and> reminders (conn a') = reminders (conn a) @
              [\<lparr>rid = next_id (conn a), medicine_name = name,
                due_datetime = datetime_combine reminder_date (hour_24 hour p * 3600 + minute * 60),
                notified = False\<rparr>]
         \<and> next_id (conn a) \<notin> rid ` set (reminders (conn a))"
proof -
  have "next_id (conn a) \<notin> rid ` set (reminders (conn a))"
    using next_id_fresh [of "conn a"] by auto
  then show ?thesis using assms dt_time_form [of hour minute p]
    by (simp add: set_vaccine_reminder_def insert_reminder_def Let_def)
qed

theorem create_accepts_future_witness:
  "\<exists>a'. set_vaccine_reminder app0 False 100 True ''Aspirin'' 1 9 30 AM
            = Inr ([ReminderSet ''Aspirin'' 120600], a')
       \<and> reminders (conn a') =
           [\<lparr>rid = 1, medicine_name = ''Aspirin'', due_datetime = 120600, notified = False\<rparr>]"
  using create_accepts_future [where name = "''Aspirin''" and hour = 9 and minute = 30
      and reminder_date = 1 and p = AM and now = 100 and insert_fails = False and a = app0]
  by (simp add: datetime_combine_def hour_24_def app0_def next_id_def)

text \<open>
  Claim C7. Whatever the table holds and in whatever order its rows were inserted, the
  rows that the reminder list shows are in non-decreasing order of their due time, and
  they are the rows of the table, each as often as it is there.
\<close>

theorem view_reminders_sorted:
  "sorted (map (\<lambda>(i, n, d, b). d) (snd (view_reminders a)))
   \<and> mset (snd (view_reminders a)) =
       mset (map (\<lambda>r. (rid r, medicine_name r, due_datetime r, notified r)) (reminders (conn a)))"
proof -
  have "map (\<lambda>(i, n, d, b). d) (snd (view_reminders a)) =
        map due_datetime (sort_key due_datetime (reminders (conn a)))"
    by (simp add: view_reminders_def select_all_ordered_def Let_def comp_def)
  then have 1: "sorted (map (\<lambda>(i, n, d, b). d) (snd (view_reminders a)))"
    by (simp only: sorted_sort_key)
  have "mset (sort_key due_datetime (reminders (conn a))) = mset (reminders (conn a))" by simp
  then have 2: "mset (snd (view_reminders a)) =
        mset (map (\<lambda>r. (rid r, medicine_name r, due_datetime r, notified r)) (reminders (conn a)))"
    by (simp add: view_reminders_def select_all_ordered_def Let_def)
  from 1 2 show ?thesis by blast
qed

section \<open>The table under the statements\<close>

lemma update_absent:
  "reminder_id \<notin> rid ` set (reminders d) \<Longrightarrow> update_notified d reminder_id = d"
proof -
  assume "reminder_id \<notin> rid ` set (reminders d)"
  then have "map (\<lambda>r. if rid r = reminder_id then r\<lparr>notified := True\<rparr> else r) (reminders d)
             = reminders d"
    by (intro map_idI) auto
  then show ?thesis by (simp add: update_notified_def)
qed

lemma delete_absent:
  "reminder_id \<notin> rid ` set (reminders d) \<Longrightarrow> delete_row d reminder_id = d"
proof -
  assume "reminder_id \<notin> rid ` set (reminders d)"
  then have "filter (\<lambda>r. rid r \<noteq> reminder_id) (reminders d) = reminders d"
    by (auto intro: filter_True)
  then show ?thesis by (simp add: delete_row_def)
qed

lemma deleted_absent: "reminder_id \<notin> rid ` set (reminders (delete_row d reminder_id))"
  by (auto simp: delete_row_def)

lemma delete_twice: "delete_row (delete_row d i) i = delete_row d i"
  by (rule delete_absent [OF deleted_absent])

lemma update_twice: "update_notified (update_notified d i) i = update_notified d i"
  by (simp add: update_notified_def comp_def)

lemma update_ids:
  "map rid (reminders (update_notified d i)) = map rid (reminders d)
   \<and> seq (update_notified d i) = seq d"
  by (simp add: update_notified_def comp_def)

lemma wf_db_distinct: "wf_db d \<Longrightarrow> distinct (map rid (reminders d))"
  by (simp add: wf_db_def strict_sorted_iff)

lemma same_id_same_row:
  "distinct (map rid rows) \<Longrightarrow> r \<in> set rows \<Longrightarrow> x \<in> set rows \<Longrightarrow> rid r = rid x \<Longrightarrow> r = x"
  by (meson distinct_map inj_onD)

lemma wf_db_insert: "wf_db d \<Longrightarrow> wf_db (insert_reminder d name due)"
  using next_id_fresh [of d]
  by (auto simp: wf_db_def insert_reminder_def sorted_wrt_append list_all_iff less_imp_le)

lemma wf_db_delete: "wf_db d \<Longrightarrow> wf_db (delete_row d i)"
  by (auto simp: wf_db_def delete_row_def list_all_iff sorted_wrt_map sorted_wrt_filter)

lemma wf_db_same_ids:
  "map rid (reminders d') = map rid (reminders d) \<Longrightarrow> seq d' = seq d \<Longrightarrow> wf_db d \<Longrightarrow> wf_db d'"
proof -
  assume m: "map rid (reminders d') = map rid (reminders d)" and s: "seq d' = seq d" and w: "wf_db d"
  have "list_all (\<lambda>r. rid r \<le> seq d') (reminders d') = list_all (\<lambda>i. i \<le> seq d') (map rid (reminders d'))"
    by (simp add: list_all_iff)
  also have "\<dots> = list_all (\<lambda>r. rid r \<le> seq d) (reminders d)"
    unfolding m s by (simp add: list_all_iff)
  finally show ?thesis using w m by (simp add: wf_db_def)
qed

section \<open>The notification and the poll cycle, step by step\<close>

lemma dispatched_append: "dispatched (xs @ ys) = dispatched xs @ dispatched ys"
  by (induction xs rule: dispatched.induct) simp_all

lemma notify_user_eq:
  "notify_user a f i name due_time = (evs, res, a') \<Longrightarrow>
     res = Inr (dispatch_ok f)
     \<and> a' = (if update_runs f then a\<lparr>conn := update_notified (conn a) i\<rparr> else a)
     \<and> dispatched evs = (if thread_fails f then [] else [i])"
  by (auto simp: notify_user_def notify_body_def thread_start_def mark_reminder_as_notified_def
      Let_def dispatch_ok_def update_runs_def dispatched_append split: if_splits)

lemma updates_fold:
  "reminders (fold (\<lambda>i d. if P i then update_notified d i else d) ids d)
     = map (\<lambda>r. if rid r \<in> set ids \<and> P (rid r) then r\<lparr>notified := True\<rparr> else r) (reminders d)
   \<and> seq (fold (\<lambda>i d. if P i then update_notified d i else d) ids d) = seq d"
proof (induction ids arbitrary: d)
  case Nil
  show ?case by (simp add: map_idI)
next
  case (Cons i ids)
  let ?d = "if P i then update_notified d i else d"
  have r: "reminders ?d = map (\<lambda>r. if rid r = i \<and> P i then r\<lparr>notified := True\<rparr> else r) (reminders d)"
    by (simp add: update_notified_def map_idI)
  have s: "seq ?d = seq d" by (simp add: update_notified_def)
  show ?case using Cons.IH [of ?d] unfolding fold_simps r s
    by (auto simp: comp_def)
qed

lemma dispatch_all_eq:
  "dispatch_all a env rows = (evs, r, a') \<Longrightarrow>
     r = None
     \<and> a' = a\<lparr>conn := fold (\<lambda>i d. if update_runs (env i) then update_notified d i else d)
                       (map fst rows) (conn a)\<rparr>
     \<and> dispatched evs = filter (\<lambda>i. \<not> thread_fails (env i)) (map fst rows)"
proof (induction a env rows arbitrary: evs r a' rule: dispatch_all.induct)
  case (1 a env)
  then show ?case by simp
next
  case (2 a env reminder_id name due_time rest)
  obtain e1 r1 a1 where n: "notify_user a (env reminder_id) reminder_id name due_time = (e1, r1, a1)"
    by (cases "notify_user a (env reminder_id) reminder_id name due_time") auto
  note u = notify_user_eq [OF n]
  obtain e2 r2 a2 where d: "dispatch_all a1 env rest = (e2, r2, a2)"
    by (cases "dispatch_all a1 env rest") auto
  from u have r1: "r1 = Inr (dispatch_ok (env reminder_id))" by simp
  have ih: "r2 = None
     \<and> a2 = a1\<lparr>conn := fold (\<lambda>i d. if update_runs (env i) then update_notified d i else d)
                       (map fst rest) (conn a1)\<rparr>
     \<and> dispatched e2 = filter (\<lambda>i. \<not> thread_fails (env i)) (map fst rest)"
    using "2.IH" [OF n [symmetric] _ r1 d] by simp
  from "2.prems" n d r1 have res: "evs = e1 @ e2" "r = r2" "a' = a2" by simp_all
  show ?case using res ih u by (auto simp: dispatched_append)
qed

lemma select_due_ids:
  "map fst (select_due d now) =
     map rid (filter (\<lambda>r. \<not> notified r \<and> due_datetime r \<le> now) (reminders d))"
  by (simp add: select_due_def comp_def)

lemma poll_cycle_eq:
  assumes "\<not> select_fails env"
  shows "snd (poll_cycle a env now) =
           a\<lparr>conn := fold (\<lambda>i d. if update_runs (dispatch_faults env i)
                                 then update_notified d i else d)
                      (map fst (select_due (conn a) now)) (conn a)\<rparr>"
    and "dispatched (fst (poll_cycle a env now)) =
           filter (\<lambda>i. \<not> thread_fails (dispatch_faults env i)) (map fst (select_due (conn a) now))"
proof -
  obtain evs r a' where d: "dispatch_all a (dispatch_faults env) (select_due (conn a) now) = (evs, r, a')"
    by (cases "dispatch_all a (dispatch_faults env) (select_due (conn a) now)") auto
  note e = dispatch_all_eq [OF d]
  from e have p: "poll_cycle a env now = (evs @ [Sleep 60], a')"
    using assms d by (simp add: poll_cycle_def)
  show "snd (poll_cycle a env now) =
           a\<lparr>conn := fold (\<lambda>i d. if update_runs (dispatch_faults env i)
                                 then update_notified d i else d)
                      (map fst (select_due (conn a) now)) (conn a)\<rparr>"
    using p e by simp
  show "dispatched (fst (poll_cycle a env now)) =
           filter (\<lambda>i. \<not> thread_fails (dispatch_faults env i)) (map fst (select_due (conn a) now))"
    using p e by (simp add: dispatched_append)
qed

lemma poll_cycle_failed_select:
  "select_fails env \<Longrightarrow> snd (poll_cycle a env now) = a \<and> dispatched (fst (poll_cycle a env now)) = []"
  by (simp add: poll_cycle_def)

lemma poll_cycle_rows:
  assumes "\<not> select_fails env"
  shows "reminders (conn (snd (poll_cycle a env now))) =
           map (\<lambda>r. if rid r \<in> rid ` {x \<in> set (reminders (conn a)). \<not> notified x \<and> due_datetime x \<le> now}
                        \<and> update_runs (dispatch_faults env (rid r))
                     then r\<lparr>notified := True\<rparr> else r) (reminders (conn a))"
    and "seq (conn (snd (poll_cycle a env now))) = seq (conn a)"
  using updates_fold [of "\<lambda>i. update_runs (dispatch_faults env i)"
      "map fst (select_due (conn a) now)" "conn a"]
  by (simp_all add: poll_cycle_eq(1) [OF assms] select_due_ids)

lemma poll_cycle_rows_wf:
  assumes "\<not> select_fails env" "wf_db (conn a)"
  shows "reminders (conn (snd (poll_cycle a env now))) =
           map (\<lambda>r. if \<not> notified r \<and> due_datetime r \<le> now \<and> update_runs (dispatch_faults env (rid r))
                     then r\<lparr>notified := True\<rparr> else r) (reminders (conn a))"
proof -
  have "\<And>r. r \<in> set (reminders (conn a)) \<Longrightarrow>
      (rid r \<in> rid ` {x \<in> set (reminders (conn a)). \<not> notified x \<and> due_datetime x \<le> now})
      = (\<not> notified r \<and> due_datetime r \<le> now)"
    using same_id_same_row [OF wf_db_distinct [OF assms(2)]] by blast
  then show ?thesis unfolding poll_cycle_rows(1) [OF assms(1)] by (intro map_cong) auto
qed

lemma poll_cycle_ids:
  "map rid (reminders (conn (snd (poll_cycle a env now)))) = map rid (reminders (conn a))
   \<and> seq (conn (snd (poll_cycle a env now))) = seq (conn a)"
proof (cases "select_fails env")
  case True
  then show ?thesis using poll_cycle_failed_select [of env a now] by simp
next
  case False
  show ?thesis unfolding poll_cycle_rows [OF False] by (simp add: comp_def)
qed

lemma dispatch_in_rows:
  assumes "\<not> select_fails env"
  shows "dispatched (fst (poll_cycle a env now)) =
           map rid (filter (\<lambda>r. \<not> notified r \<and> due_datetime r \<le> now
                                  \<and> \<not> thread_fails (dispatch_faults env (rid r))) (reminders (conn a)))"
  unfolding poll_cycle_eq(2) [OF assms(1)] select_due_ids
  by (simp add: filter_map comp_def conj_commute conj_left_commute)

lemma step_poll:
  "step a (PollCycle env now) = (if monitoring a then snd (poll_cycle a env now) else a)"
  by (simp split: prod.splits)

lemma step_set:
  "conn (step a (SetReminder insert_fails now name reminder_date hour minute p)) = conn a
   \<or> (\<exists>due. conn (step a (SetReminder insert_fails now name reminder_date hour minute p))
              = insert_reminder (conn a) name due)"
  by (auto simp: set_vaccine_reminder_def Let_def split: sum.splits if_splits)

lemma wf_db_step: "wf_db (conn a) \<Longrightarrow> wf_db (conn (step a act))"
proof (cases act)
  case (SetReminder insert_fails now name reminder_date hour minute p)
  assume "wf_db (conn a)"
  then show ?thesis
    using step_set [of a insert_fails now name reminder_date hour minute p] SetReminder
    by (auto simp: wf_db_insert)
next
  case (DeleteReminder j)
  assume "wf_db (conn a)"
  then show ?thesis using DeleteReminder by (simp add: delete_reminder_def wf_db_delete)
next
  case ViewReminders
  assume "wf_db (conn a)"
  then show ?thesis using ViewReminders by simp
next
  case (PollCycle env now)
  assume w: "wf_db (conn a)"
  have "wf_db (conn (snd (poll_cycle a env now)))"
    using wf_db_same_ids [OF _ _ w] poll_cycle_ids [of a env now] by blast
  then show ?thesis using w unfolding PollCycle step_poll by simp
qed

lemma wf_db_run: "wf_db (conn a) \<Longrightarrow> wf_db (conn (run a acts))"
proof (induction acts arbitrary: a)
  case Nil
  then show ?case by (simp add: run_def)
next
  case (Cons act acts)
  from Cons.IH [OF wf_db_step [OF Cons.prems]] show ?case by (simp add: run_def)
qed

lemma wf_db_reachable: "wf_db (conn (run app0 acts))"
  by (rule wf_db_run) (simp add: app0_def wf_db_def)

section \<open>Properties of the notification\<close>

text \<open>
  Claim C4. \<open>notify_user\<close> returns a boolean to the monitor loop and never an exception,
  whatever the audio calls and the desktop notification do, both failing included:
  their failures stay inside the thread and do not even change the boolean, which is
  false exactly when the thread could not be started or the UPDATE or its commit raised.
\<close>

theorem notify_user_never_raises:
  "fst (snd (notify_user a f reminder_id name due_time))
     = Inr (\<not> thread_fails f \<and> \<not> update_fails f \<and> \<not> commit_fails f)"
  by (simp add: notify_user_def notify_body_def thread_start_def mark_reminder_as_notified_def Let_def)

text \<open>
  Claim C9, as the code has it. The thread holds for 5 and then calls \<open>stop\<close> exactly
  when \<open>sound_enabled\<close> is set, whether or not playback was started; when it is not set
  there is no play, no hold and no stop. \<open>play\<close> is called exactly when \<open>sound_enabled\<close>
  is set and the sound file exists.
\<close>

theorem hold_iff_sound_enabled:
  "(Sleep 5 \<in> set (play_sound_and_notify enabled f name due_time) \<longleftrightarrow> enabled)
   \<and> ((\<exists>b. MusicStop b \<in> set (play_sound_and_notify enabled f name due_time)) \<longleftrightarrow> enabled)
   \<and> ((\<exists>b. MusicPlay b \<in> set (play_sound_and_notify enabled f name due_time))
         \<longleftrightarrow> enabled \<and> file_exists f)
   \<and> (enabled \<longrightarrow> (\<exists>pre. play_sound_and_notify enabled f name due_time
                          = pre @ [Sleep 5, MusicStop (\<not> stop_fails f)]
                        \<and> Sleep 5 \<notin> set pre \<and> (\<forall>b. MusicStop b \<notin> set pre)))"
  by (auto simp: play_sound_and_notify_def music_play_def music_stop_def notification_notify_def)

theorem hold_iff_sound_enabled_witness:
  "play_sound_and_notify True faults0 ''Aspirin'' 100
     = [MusicPlay True, DesktopNotify ''Aspirin'' 100 True, Sleep 5, MusicStop True]
   \<and> (\<exists>pre. play_sound_and_notify True faults0 ''Aspirin'' 100 = pre @ [Sleep 5, MusicStop True])"
  using hold_iff_sound_enabled [of True faults0 "''Aspirin''" 100]
  by (auto simp: play_sound_and_notify_def music_play_def music_stop_def notification_notify_def
      faults0_def)

theorem hold_without_playback_counterexample:
  "MusicPlay True \<notin> set (play_sound_and_notify True (faults0\<lparr>file_exists := False\<rparr>) ''Aspirin'' 100)
   \<and> Sleep 5 \<in> set (play_sound_and_notify True (faults0\<lparr>file_exists := False\<rparr>) ''Aspirin'' 100)
   \<and> MusicStop True \<in> set (play_sound_and_notify True (faults0\<lparr>file_exists := False\<rparr>) ''Aspirin'' 100)"
  by (simp add: play_sound_and_notify_def music_play_def music_stop_def notification_notify_def
      faults0_def)

section \<open>Properties of the monitor loop\<close>

lemma app2_rows:
  "conn app2 = \<lparr>reminders =
       [\<lparr>rid = 1, medicine_name = ''Aspirin'', due_datetime = 180, notified = False\<rparr>,
        \<lparr>rid = 2, medicine_name = ''Paracetamol'', due_datetime = 120, notified = False\<rparr>], seq = 2\<rparr>
   \<and> monitoring app2 \<and> \<not> sound_enabled app2"
  by (simp add: app2_def run_def app0_def set_vaccine_reminder_def hour_24_def dt_time_def
      datetime_combine_def insert_reminder_def next_id_def Let_def)

text \<open>
  Claim C1, at the input where the code departs from it. Two reminders are set through
  the form, the first due at second 180 and the second at second 120; the cycle at
  second 200 finds both due and dispatches reminder 1, due later, before reminder 2.
\<close>

theorem later_due_dispatched_first:
  "map (\<lambda>r. (rid r, due_datetime r, notified r)) (reminders (conn app2))
     = [(1, 180, False), (2, 120, False)]
   \<and> dispatched (fst (poll_cycle app2 env0 200)) = [1, 2]"
proof -
  have "\<not> select_fails env0" by (simp add: env0_def)
  from dispatch_in_rows [OF this, of app2 200] show ?thesis
    by (simp add: app2_rows env0_def faults0_def)
qed

text \<open>
  Claim C2, at the input where the code departs from it. The commit that follows the
  UPDATE raises: \<open>notify_user\<close> reports failure, yet the row is left notified on the
  connection, the SELECT of the next cycle does not return it and the next cycle does
  not dispatch it.
\<close>

theorem failed_commit_leaves_mark:
  "snd (notify_user app1 (faults0\<lparr>commit_fails := True\<rparr>) 1 ''Aspirin'' 100)
     = (Inr False, app1\<lparr>conn := \<lparr>reminders =
          [\<lparr>rid = 1, medicine_name = ''Aspirin'', due_datetime = 100, notified = True\<rparr>], seq = 1\<rparr>\<rparr>)
   \<and> select_due (conn app1) 100 = [(1, ''Aspirin'', 100)]
   \<and> select_due (conn (snd (poll_cycle app1 env1 100))) 160 = []
   \<and> dispatched (fst (poll_cycle (snd (poll_cycle app1 env1 100)) env0 160)) = []"
proof -
  have e: "\<not> select_fails env1" "\<not> select_fails env0" by (simp_all add: env1_def env0_def)
  have w: "wf_db (conn app1)" by (simp add: app1_def wf_db_def)
  have 1: "snd (notify_user app1 (faults0\<lparr>commit_fails := True\<rparr>) 1 ''Aspirin'' 100)
     = (Inr False, app1\<lparr>conn := \<lparr>reminders =
          [\<lparr>rid = 1, medicine_name = ''Aspirin'', due_datetime = 100, notified = True\<rparr>], seq = 1\<rparr>\<rparr>)"
    by (simp add: notify_user_def notify_body_def thread_start_def mark_reminder_as_notified_def
        update_notified_def Let_def faults0_def app1_def)
  have 2: "select_due (conn app1) 100 = [(1, ''Aspirin'', 100)]"
    by (simp add: select_due_def app1_def)
  have r: "reminders (conn (snd (poll_cycle app1 env1 100))) =
          [\<lparr>rid = 1, medicine_name = ''Aspirin'', due_datetime = 100, notified = True\<rparr>]"
    unfolding poll_cycle_rows_wf [OF e(1) w]
    by (simp add: app1_def env1_def faults0_def update_runs_def)
  have 3: "select_due (conn (snd (poll_cycle app1 env1 100))) 160 = []"
    by (simp add: select_due_def r)
  have 4: "dispatched (fst (poll_cycle (snd (poll_cycle app1 env1 100)) env0 160)) = []"
    unfolding dispatch_in_rows [OF e(2)] r by simp
  from 1 2 3 4 show ?thesis by blast
qed

section \<open>Ids and flags over runs\<close>

lemma step_keeps_absent:
  assumes "i \<notin> rid ` set (reminders (conn a)) \<and> i \<le> seq (conn a)"
  shows "i \<notin> rid ` set (reminders (conn (step a act))) \<and> i \<le> seq (conn (step a act))"
proof (cases act)
  case (SetReminder insert_fails now name reminder_date hour minute p)
  have "i < next_id (conn a)" using assms next_id_seq [of "conn a"] by simp
  then show ?thesis using assms unfolding SetReminder
    by (auto simp: set_vaccine_reminder_def insert_reminder_def Let_def split: sum.splits if_splits)
next
  case (DeleteReminder j)
  then show ?thesis using assms by (auto simp: delete_reminder_def delete_row_def)
next
  case ViewReminders
  then show ?thesis using assms by simp
next
  case (PollCycle env now)
  have "set (map rid (reminders (conn (snd (poll_cycle a env now))))) = set (map rid (reminders (conn a)))"
    using poll_cycle_ids [of a env now] by simp
  then have "i \<notin> rid ` set (reminders (conn (snd (poll_cycle a env now))))"
    using assms by simp
  then show ?thesis using assms poll_cycle_ids [of a env now] unfolding PollCycle step_poll by simp
qed

lemma run_keeps_absent:
  "i \<notin> rid ` set (reminders (conn a)) \<and> i \<le> seq (conn a) \<Longrightarrow>
   i \<notin> rid ` set (reminders (conn (run a acts))) \<and> i \<le> seq (conn (run a acts))"
proof (induction acts arbitrary: a)
  case Nil
  then show ?case by (simp add: run_def)
next
  case (Cons act acts)
  from Cons.IH [OF step_keeps_absent [OF Cons.prems]] show ?case by (simp add: run_def)
qed

lemma notify_absent:
  assumes "i \<notin> rid ` set (reminders (conn a))"
  shows "snd (mark_reminder_as_notified f (conn a) i) = conn a"
    and "snd (notify_user a f i name due_time) = (Inr (dispatch_ok f), a)"
proof -
  note u = update_absent [OF assms]
  show "snd (mark_reminder_as_notified f (conn a) i) = conn a"
    using u by (simp add: mark_reminder_as_notified_def)
  obtain evs res a' where n: "notify_user a f i name due_time = (evs, res, a')"
    by (cases "notify_user a f i name due_time") auto
  from notify_user_eq [OF n] u n
  show "snd (notify_user a f i name due_time) = (Inr (dispatch_ok f), a)" by simp
qed

text \<open>
  Claim C8. Let an id be one the table has given out (it is not above the sequence
  value, as the id of every row is). After \<open>delete_reminder\<close> of that id and any further
  submissions of the form, deletions, views and poll cycles, no row has the id: marking
  it leaves the table as it is and raises nothing unless the database itself fails, and
  a notification for it (the race of the monitor loop with a deletion) returns its
  boolean and leaves the application as it is. Deleting twice is deleting once, the
  UPDATE run twice is the UPDATE run once, and for an id that the table does not hold
  both leave the table unchanged.
\<close>

theorem delete_then_mark_noop:
  assumes "i \<le> seq (conn a)"
  shows "i \<notin> rid ` set (reminders (conn (run (snd (delete_reminder a i)) acts)))
   \<and> mark_reminder_as_notified f (conn (run (snd (delete_reminder a i)) acts)) i
       = (if update_fails f \<or> commit_fails f then Some SqliteError else None,
          conn (run (snd (delete_reminder a i)) acts))
   \<and> snd (notify_user (run (snd (delete_reminder a i)) acts) f i name due_time)
       = (Inr (dispatch_ok f), run (snd (delete_reminder a i)) acts)
   \<and> snd (delete_reminder (snd (delete_reminder a i)) i) = snd (delete_reminder a i)
   \<and> update_notified (update_notified d i) i = update_notified d i
   \<and> (j \<notin> rid ` set (reminders (conn a)) \<longrightarrow>
        snd (delete_reminder a j) = a \<and> update_notified (conn a) j = conn a)"
proof -
  let ?a1 = "snd (delete_reminder a i)"
  let ?a2 = "run ?a1 acts"
  have "i \<notin> rid ` set (reminders (conn ?a1)) \<and> i \<le> seq (conn ?a1)"
    using assms deleted_absent [of i "conn a"] by (simp add: delete_reminder_def delete_row_def)
  from run_keeps_absent [OF this, of acts]
  have 1: "i \<notin> rid ` set (reminders (conn ?a2))" by simp
  have 2: "mark_reminder_as_notified f (conn ?a2) i
       = (if update_fails f \<or> commit_fails f then Some SqliteError else None, conn ?a2)"
    using update_absent [OF 1] by (simp add: mark_reminder_as_notified_def)
  note 3 = notify_absent(2) [OF 1, of f name due_time]
  have 4: "snd (delete_reminder ?a1 i) = ?a1"
    using delete_twice [of "conn a" i] by (simp add: delete_reminder_def)
  have 5: "j \<notin> rid ` set (reminders (conn a)) \<longrightarrow>
        snd (delete_reminder a j) = a \<and> update_notified (conn a) j = conn a"
    using delete_absent [where d = "conn a" and reminder_id = j]
      update_absent [where d = "conn a" and reminder_id = j]
    by (simp add: delete_reminder_def)
  from 1 2 3 4 5 update_twice show ?thesis by blast
qed

theorem delete_then_mark_noop_witness:
  "reminders (conn (run (snd (delete_reminder app2 1))
       [SetReminder False 0 ''Ibuprofen'' 0 12 4 AM, PollCycle env0 200]))
     = [\<lparr>rid = 2, medicine_name = ''Paracetamol'', due_datetime = 120, notified = True\<rparr>,
        \<lparr>rid = 3, medicine_name = ''Ibuprofen'', due_datetime = 240, notified = False\<rparr>]
   \<and> mark_reminder_as_notified faults0
        (conn (run (snd (delete_reminder app2 1))
           [SetReminder False 0 ''Ibuprofen'' 0 12 4 AM, PollCycle env0 200])) 1
       = (None, conn (run (snd (delete_reminder app2 1))
           [SetReminder False 0 ''Ibuprofen'' 0 12 4 AM, PollCycle env0 200]))"
proof -
  have s: "1 \<le> seq (conn app2)" by (simp add: app2_rows)
  have r: "reminders (conn (run (snd (delete_reminder app2 1))
       [SetReminder False 0 ''Ibuprofen'' 0 12 4 AM, PollCycle env0 200]))
     = [\<lparr>rid = 2, medicine_name = ''Paracetamol'', due_datetime = 120, notified = True\<rparr>,
        \<lparr>rid = 3, medicine_name = ''Ibuprofen'', due_datetime = 240, notified = False\<rparr>]"
    by (simp add: run_def delete_reminder_def delete_row_def app2_rows set_vaccine_reminder_def
        hour_24_def dt_time_def datetime_combine_def insert_reminder_def next_id_def Let_def
        poll_cycle_def select_due_def env0_def faults0_def notify_user_def notify_body_def
        thread_start_def mark_reminder_as_notified_def update_notified_def)
  from delete_then_mark_noop [OF s, of "[SetReminder False 0 ''Ibuprofen'' 0 12 4 AM, PollCycle env0 200]" faults0]
    r show ?thesis by (simp add: faults0_def)
qed

lemma all_notified_mark:
  "(\<forall>r\<in>set (reminders d). rid r = i \<longrightarrow> notified r) \<Longrightarrow>
   \<forall>r\<in>set (map (\<lambda>r. if Q r then r\<lparr>notified := True\<rparr> else r) (reminders d)). rid r = i \<longrightarrow> notified r"
  by auto

lemma poll_cycle_keeps:
  assumes "(\<forall>r\<in>set (reminders (conn a)). rid r = i \<longrightarrow> notified r) \<and> i \<le> seq (conn a)"
  shows "(\<forall>r\<in>set (reminders (conn (snd (poll_cycle a env now)))). rid r = i \<longrightarrow> notified r)
         \<and> i \<le> seq (conn (snd (poll_cycle a env now)))"
proof (cases "select_fails env")
  case True
  then show ?thesis using assms poll_cycle_failed_select [of env a now] by simp
next
  case False
  from assms have n: "\<forall>r\<in>set (reminders (conn a)). rid r = i \<longrightarrow> notified r" by simp
  have "\<forall>r\<in>set (reminders (conn (snd (poll_cycle a env now)))). rid r = i \<longrightarrow> notified r"
    unfolding poll_cycle_rows(1) [OF False] by (rule all_notified_mark [OF n])
  then show ?thesis using assms poll_cycle_rows(2) [OF False, of a now] by simp
qed

lemma step_keeps_notified:
  assumes "(\<forall>r\<in>set (reminders (conn a)). rid r = i \<longrightarrow> notified r) \<and> i \<le> seq (conn a)"
  shows "(\<forall>r\<in>set (reminders (conn (step a act))). rid r = i \<longrightarrow> notified r)
         \<and> i \<le> seq (conn (step a act))"
proof (cases act)
  case (SetReminder insert_fails now name reminder_date hour minute p)
  have n: "i < next_id (conn a)" using assms next_id_seq [of "conn a"] by simp
  have "\<And>due. (\<forall>r\<in>set (reminders (insert_reminder (conn a) name due)). rid r = i \<longrightarrow> notified r)
               \<and> i \<le> seq (insert_reminder (conn a) name due)"
    using assms n by (simp add: insert_reminder_def)
  then show ?thesis
    using assms step_set [of a insert_fails now name reminder_date hour minute p]
    unfolding SetReminder by metis
next
  case (DeleteReminder j)
  then show ?thesis using assms by (simp add: delete_reminder_def delete_row_def)
next
  case ViewReminders
  then show ?thesis using assms by simp
next
  case (PollCycle env now)
  show ?thesis using poll_cycle_keeps [OF assms, of env now] assms
    unfolding PollCycle step_poll by simp
qed

lemma run_keeps_notified:
  "(\<forall>r\<in>set (reminders (conn a)). rid r = i \<longrightarrow> notified r) \<and> i \<le> seq (conn a) \<Longrightarrow>
   (\<forall>r\<in>set (reminders (conn (run a acts))). rid r = i \<longrightarrow> notified r) \<and> i \<le> seq (conn (run a acts))"
proof (induction acts arbitrary: a)
  case Nil
  then show ?case by (simp add: run_def)
next
  case (Cons act acts)
  from Cons.IH [OF step_keeps_notified [OF Cons.prems]] show ?case by (simp add: run_def)
qed

lemma notified_not_dispatched:
  assumes "\<forall>r\<in>set (reminders (conn a)). rid r = i \<longrightarrow> notified r"
  shows "i \<notin> set (dispatched (fst (poll_cycle a env now)))"
proof (cases "select_fails env")
  case True
  then show ?thesis using poll_cycle_failed_select [of env a now] by simp
next
  case False
  show ?thesis unfolding poll_cycle_eq(2) [OF False] select_due_ids using assms by auto
qed

lemma count_list_distinct: "distinct xs \<Longrightarrow> x \<in> set xs \<Longrightarrow> count_list xs x = 1"
  by (induction xs) auto

text \<open>
  Claim C3. Let a reminder be unnotified and due when a poll cycle runs whose SELECT
  succeeds and in which the dispatch of that reminder succeeds. Then the cycle
  dispatches it exactly once and its row is notified afterwards; after any further
  submissions of the form, deletions, views and poll cycles, whatever fails in them,
  no row with its id is unnotified; and no later poll cycle dispatches it.
\<close>

theorem notified_once_and_for_all:
  assumes "wf_db (conn a)" "r \<in> set (reminders (conn a))" "\<not> notified r" "due_datetime r \<le> now"
    and "\<not> select_fails env" "dispatch_ok (dispatch_faults env (rid r))"
  shows "count_list (dispatched (fst (poll_cycle a env now))) (rid r) = 1
         \<and> r\<lparr>notified := True\<rparr> \<in> set (reminders (conn (snd (poll_cycle a env now))))
         \<and> (\<forall>r'\<in>set (reminders (conn (run (snd (poll_cycle a env now)) acts))).
               rid r' = rid r \<longrightarrow> notified r')
         \<and> rid r \<notin> set (dispatched (fst (poll_cycle (run (snd (poll_cycle a env now)) acts) env' now')))"
proof -
  let ?a1 = "snd (poll_cycle a env now)"
  let ?Q = "\<lambda>r. \<not> notified r \<and> due_datetime r \<le> now \<and> \<not> thread_fails (dispatch_faults env (rid r))"
  let ?g = "\<lambda>r. if \<not> notified r \<and> due_datetime r \<le> now \<and> update_runs (dispatch_faults env (rid r))
                 then r\<lparr>notified := True\<rparr> else r"
  note d = dispatch_in_rows [OF assms(5), of a now]
  have u: "update_runs (dispatch_faults env (rid r))" using assms(6) by (simp add: dispatch_ok_def)
  have q: "?Q r" using assms u by (simp add: update_runs_def)
  have "distinct (map rid (filter ?Q (reminders (conn a))))"
    using wf_db_distinct [OF assms(1)] by (simp add: distinct_map_filter)
  moreover have "rid r \<in> set (map rid (filter ?Q (reminders (conn a))))"
    using assms(2) q by force
  ultimately have 1: "count_list (dispatched (fst (poll_cycle a env now))) (rid r) = 1"
    unfolding d by (rule count_list_distinct)
  note rows = poll_cycle_rows_wf [OF assms(5) assms(1), of now]
  have g: "?g r = r\<lparr>notified := True\<rparr>" using assms u by simp
  have "?g r \<in> ?g ` set (reminders (conn a))" using assms(2) by (rule imageI)
  then have "r\<lparr>notified := True\<rparr> \<in> ?g ` set (reminders (conn a))" unfolding g .
  then have 2: "r\<lparr>notified := True\<rparr> \<in> set (reminders (conn ?a1))" unfolding rows by simp
  have inv: "(\<forall>r'\<in>set (reminders (conn ?a1)). rid r' = rid r \<longrightarrow> notified r') \<and> rid r \<le> seq (conn ?a1)"
  proof -
    have "\<forall>r'\<in>set (reminders (conn ?a1)). rid r' = rid r \<longrightarrow> notified r'"
    proof (intro ballI impI)
      fix r' assume "r' \<in> set (reminders (conn ?a1))" and e: "rid r' = rid r"
      then obtain x where x: "x \<in> set (reminders (conn a))" and r': "r' = ?g x"
        unfolding rows by auto
      have "rid x = rid r" using e r' by (simp split: if_splits)
      then have "x = r"
        using same_id_same_row [OF wf_db_distinct [OF assms(1)] x assms(2)] by simp
      then show "notified r'" using r' assms(3) assms(4) u by simp
    qed
    moreover have "rid r \<le> seq (conn a)"
      using assms(1) assms(2) by (simp add: wf_db_def list_all_iff)
    ultimately show ?thesis using poll_cycle_rows(2) [OF assms(5), of a now] by simp
  qed
  note k = run_keeps_notified [OF inv, of acts]
  from k have 3: "\<forall>r'\<in>set (reminders (conn (run ?a1 acts))). rid r' = rid r \<longrightarrow> notified r'"
    by simp
  from notified_not_dispatched [OF 3]
  have 4: "rid r \<notin> set (dispatched (fst (poll_cycle (run ?a1 acts) env' now')))" .
  from 1 2 3 4 show ?thesis by blast
qed

theorem notified_once_and_for_all_witness:
  "count_list (dispatched (fst (poll_cycle app2 env0 200))) 1 = 1
   \<and> \<lparr>rid = 1, medicine_name = ''Aspirin'', due_datetime = 180, notified = True\<rparr>
        \<in> set (reminders (conn (snd (poll_cycle app2 env0 200))))
   \<and> 1 \<notin> set (dispatched (fst (poll_cycle
        (run (snd (poll_cycle app2 env0 200))
           [SetReminder False 0 ''Ibuprofen'' 0 12 4 AM, PollCycle env1 300]) env0 400)))"
proof -
  have w: "wf_db (conn app2)" unfolding app2_def by (rule wf_db_reachable)
  have e: "\<not> select_fails env0" "dispatch_ok (dispatch_faults env0 1)"
    by (simp_all add: env0_def faults0_def dispatch_ok_def update_runs_def)
  from notified_once_and_for_all [where a = app2 and env = env0 and now = 200 and env' = env0
      and now' = 400 and acts = "[SetReminder False 0 ''Ibuprofen'' 0 12 4 AM, PollCycle env1 300]"
      and r = "\<lparr>rid = 1, medicine_name = ''Aspirin'', due_datetime = 180, notified = False\<rparr>"]
    w e show ?thesis by (simp add: app2_rows)
qed

end
